theory Spec2Isabelle
  imports Main
begin

section \<open>The circuit breaker of \<^verbatim>\<open>CircuitBreaker\<close> (PreKey error protection)\<close>

text \<open>
  A shallow embedding of the TypeScript class \<^verbatim>\<open>CircuitBreaker\<close> and of the factory
  \<^verbatim>\<open>createPreKeyCircuitBreaker\<close>.

  \<^item> A TypeScript \<^verbatim>\<open>number\<close> that holds a count, a duration in milliseconds or a value
    of \<^verbatim>\<open>Date.now()\<close> is an \<open>int\<close>. Fractional, infinite and NaN configuration values
    are outside the model.
  \<^item> The object is a record; a method is a function from the object before the call to the
    object after it (paired with the returned value where the method returns one).
  \<^item> The clock is an input. Every call of \<^verbatim>\<open>Date.now()\<close> that a method makes is a
    parameter of its own, in the order in which the method reads the clock, so a clock that
    advances (or jumps) between two reads of one call is covered. A path that does not read
    the clock ignores the parameter.
  \<^item> The optional logger is an observer only (\<^verbatim>\<open>this.config.logger?.debug(...)\<close>); it
    is not modelled. The predicate \<^verbatim>\<open>shouldCountError\<close> is a pure function.
\<close>

subsection \<open>Data\<close>

datatype CircuitBreakerState = CLOSED | OPEN | HALF_OPEN

text \<open>A JavaScript \<^verbatim>\<open>Error\<close>: the breaker reads its \<^verbatim>\<open>message\<close> only.\<close>

record js_error =
  message :: string

record FailureRecord =
  timestamp :: int
  error :: string

text \<open>\<^verbatim>\<open>Required<CircuitBreakerConfig>\<close>, the logger left out.\<close>

record CircuitBreakerConfig =
  failureThreshold :: int
  failureWindow :: int
  openTimeout :: int
  successThreshold :: int
  shouldCountError :: "js_error \<Rightarrow> bool"

record CircuitBreaker =
  state :: CircuitBreakerState
  failures :: "FailureRecord list"
  successes :: int
  openedAt :: int
  config :: CircuitBreakerConfig

text \<open>
  The object that \<^verbatim>\<open>getStats()\<close> returns. Its properties \<^verbatim>\<open>state\<close>, \<^verbatim>\<open>failures\<close>,
  \<^verbatim>\<open>successes\<close> and \<^verbatim>\<open>openedAt\<close> carry the prefix \<open>stats_\<close> here, since a record
  field is a constant and the names are taken by the fields of the breaker.
\<close>

record Stats =
  stats_state :: CircuitBreakerState
  stats_failures :: int
  stats_successes :: int
  stats_openedAt :: int
  timeUntilHalfOpen :: int

subsection \<open>Construction\<close>

text \<open>
  The constructor spreads the caller's configuration over the default
  \<^verbatim>\<open>shouldCountError: () => true\<close>. The four numbers are mandatory properties; the filter is
  \<open>None\<close> when the caller's object has no such property. The field initialisers give
  \<^verbatim>\<open>CLOSED\<close>, an empty array and two zeros.
\<close>

definition new_CircuitBreaker ::
  "int \<Rightarrow> int \<Rightarrow> int \<Rightarrow> int \<Rightarrow> (js_error \<Rightarrow> bool) option \<Rightarrow> CircuitBreaker" where
  "new_CircuitBreaker fThreshold fWindow oTimeout sThreshold filt =
     \<lparr> state = CLOSED, failures = [], successes = 0, openedAt = 0,
       config = \<lparr> failureThreshold = fThreshold, failureWindow = fWindow,
                  openTimeout = oTimeout, successThreshold = sThreshold,
                  shouldCountError = (case filt of None \<Rightarrow> (\<lambda>_. True) | Some p \<Rightarrow> p) \<rparr> \<rparr>"

subsection \<open>Private methods\<close>

text \<open>\<^verbatim>\<open>cleanOldFailures\<close>: one clock read, then the filter with the strict comparison.\<close>

definition cleanOldFailures :: "int \<Rightarrow> CircuitBreaker \<Rightarrow> CircuitBreaker" where
  "cleanOldFailures now b =
     (let cutoff = now - failureWindow (config b)
      in b\<lparr> failures := filter (\<lambda>f. timestamp f > cutoff) (failures b) \<rparr>)"

text \<open>
  \<^verbatim>\<open>transitionTo\<close>: the new state is stored, then the entry action of the new state runs.
  Only the \<^verbatim>\<open>OPEN\<close> case reads the clock; in the other two cases the parameter \<open>now\<close> is
  ignored.
\<close>

fun transitionTo :: "CircuitBreakerState \<Rightarrow> int \<Rightarrow> CircuitBreaker \<Rightarrow> CircuitBreaker" where
  "transitionTo OPEN now b = b\<lparr> state := OPEN, openedAt := now, successes := 0 \<rparr>"
| "transitionTo HALF_OPEN now b = b\<lparr> state := HALF_OPEN, successes := 0 \<rparr>"
| "transitionTo CLOSED now b = b\<lparr> state := CLOSED, failures := [], successes := 0, openedAt := 0 \<rparr>"

subsection \<open>Public methods\<close>

text \<open>
  \<^verbatim>\<open>canExecute\<close>: \<open>t_clean\<close> is the clock read of \<^verbatim>\<open>cleanOldFailures\<close>, \<open>t_check\<close> the
  read of the timeout test in the \<^verbatim>\<open>OPEN\<close> case. The \<^verbatim>\<open>default\<close> branch of the switch
  is unreachable for the three states of the type.
\<close>

definition canExecute :: "int \<Rightarrow> int \<Rightarrow> CircuitBreaker \<Rightarrow> bool \<times> CircuitBreaker" where
  "canExecute t_clean t_check b =
     (let b1 = cleanOldFailures t_clean b
      in case state b1 of
           CLOSED \<Rightarrow> (True, b1)
         | OPEN \<Rightarrow>
             if t_check - openedAt b1 \<ge> openTimeout (config b1)
             then (True, transitionTo HALF_OPEN t_check b1)
             else (False, b1)
         | HALF_OPEN \<Rightarrow> (True, b1))"

text \<open>
  \<^verbatim>\<open>recordSuccess\<close>: \<open>t_clean\<close> is the clock read of \<^verbatim>\<open>cleanOldFailures\<close> in the
  \<^verbatim>\<open>CLOSED\<close> branch; the \<^verbatim>\<open>HALF_OPEN\<close> branch does not read the clock.
\<close>

definition recordSuccess :: "int \<Rightarrow> CircuitBreaker \<Rightarrow> CircuitBreaker" where
  "recordSuccess t_clean b =
     (if state b = HALF_OPEN then
        (let b1 = b\<lparr> successes := successes b + 1 \<rparr>
         in if successes b1 \<ge> successThreshold (config b1)
            then transitionTo CLOSED t_clean b1
            else b1)
      else if state b = CLOSED then cleanOldFailures t_clean b
      else b)"

text \<open>
  \<^verbatim>\<open>recordFailure\<close>: \<open>now\<close> is the read that stamps the record, \<open>t_clean\<close> the read of
  \<^verbatim>\<open>cleanOldFailures\<close> (in \<^verbatim>\<open>CLOSED\<close> only), \<open>t_open\<close> the read of
  \<^verbatim>\<open>transitionTo('OPEN')\<close>.
\<close>

definition recordFailure ::
  "js_error \<Rightarrow> int \<Rightarrow> int \<Rightarrow> int \<Rightarrow> CircuitBreaker \<Rightarrow> CircuitBreaker" where
  "recordFailure err now t_clean t_open b =
     (if \<not> shouldCountError (config b) err then b
      else
        (let b1 = b\<lparr> failures := failures b @ [\<lparr> timestamp = now, error = message err \<rparr>] \<rparr>
         in if state b1 = HALF_OPEN then transitionTo OPEN t_open b1
            else if state b1 = CLOSED then
              (let b2 = cleanOldFailures t_clean b1
               in if int (length (failures b2)) \<ge> failureThreshold (config b2)
                  then transitionTo OPEN t_open b2
                  else b2)
            else b1))"

definition getState :: "CircuitBreaker \<Rightarrow> CircuitBreakerState" where
  "getState b = state b"

text \<open>
  \<^verbatim>\<open>getStats\<close> returns the statistics and the object after the call; \<open>now\<close> is the clock
  read of the \<^verbatim>\<open>OPEN\<close> case.
\<close>

definition getStats :: "int \<Rightarrow> CircuitBreaker \<Rightarrow> Stats \<times> CircuitBreaker" where
  "getStats now b =
     (\<lparr> stats_state = state b,
        stats_failures = int (length (failures b)),
        stats_successes = successes b,
        stats_openedAt = openedAt b,
        timeUntilHalfOpen =
          (if state b = OPEN then max 0 (openTimeout (config b) - (now - openedAt b)) else 0) \<rparr>,
      b)"

text \<open>
  \<^verbatim>\<open>reset\<close> makes no clock read: the \<^verbatim>\<open>CLOSED\<close> case of \<^verbatim>\<open>transitionTo\<close> ignores
  its clock parameter (lemma \<open>transitionTo_CLOSED_clock\<close> below), so any value serves.
\<close>

definition reset :: "CircuitBreaker \<Rightarrow> CircuitBreaker" where
  "reset b = transitionTo CLOSED 0 b"

subsection \<open>The factory \<^verbatim>\<open>createPreKeyCircuitBreaker\<close>\<close>

text \<open>
  \<^verbatim>\<open>String.prototype.includes\<close> (here \<open>includes_str\<close>, the plain name being a keyword
  of Isabelle) and \<^verbatim>\<open>toLowerCase\<close> on messages of ASCII characters (a \<open>char\<close> is a byte; the
  upper-case letters are the codes 65 to 90).
\<close>

fun startsWith :: "string \<Rightarrow> string \<Rightarrow> bool" where
  "startsWith s [] = True"
| "startsWith [] (p # ps) = False"
| "startsWith (c # cs) (p # ps) = (c = p \<and> startsWith cs ps)"

fun includes_str :: "string \<Rightarrow> string \<Rightarrow> bool" where
  "includes_str [] sub = startsWith [] sub"
| "includes_str (c # cs) sub = (startsWith (c # cs) sub \<or> includes_str cs sub)"

definition toLowerCase :: "string \<Rightarrow> string" where
  "toLowerCase s =
     map (\<lambda>c. let n = (of_char c :: nat)
               in if 65 \<le> n \<and> n \<le> 90 then char_of (n + 32) else c) s"

definition preKeyFilter :: "js_error \<Rightarrow> bool" where
  "preKeyFilter e =
     (let msg = toLowerCase (message e)
      in includes_str msg ''prekey'' \<or> includes_str msg ''pre-key'' \<or>
         includes_str msg ''key used already'' \<or> includes_str msg ''never filled'' \<or>
         includes_str msg ''session'' \<or> includes_str msg ''decrypt'')"

definition createPreKeyCircuitBreaker :: CircuitBreaker where
  "createPreKeyCircuitBreaker =
     new_CircuitBreaker 5 (60 * 1000) (30 * 1000) 2 (Some preKeyFilter)"

subsection \<open>Sequences of calls\<close>

text \<open>
  A caller's use of one breaker is a list of calls of the public methods, each with the clock
  reads it makes: \<open>c_now\<close> for the stamp of a failure record and for \<^verbatim>\<open>getStats\<close>,
  \<open>c_clean\<close> for \<^verbatim>\<open>cleanOldFailures\<close>, \<open>c_check\<close> for the timeout test, \<open>c_open\<close> for
  \<^verbatim>\<open>transitionTo('OPEN')\<close>. \<open>exec\<close> is the object after one call, \<open>run\<close> the object
  after a list of calls, first call first.
\<close>

datatype call =
    is_CanExecute: CanExecute (c_clean: int) (c_check: int)
  | is_RecordSuccess: RecordSuccess (c_clean: int)
  | is_RecordFailure: RecordFailure (c_err: js_error) (c_now: int) (c_clean: int) (c_open: int)
  | is_GetStats: GetStats (c_now: int)
  | is_Reset: Reset

fun exec :: "call \<Rightarrow> CircuitBreaker \<Rightarrow> CircuitBreaker" where
  "exec (CanExecute tc tk) b = snd (canExecute tc tk b)"
| "exec (RecordSuccess tc) b = recordSuccess tc b"
| "exec (RecordFailure e n tc topen) b = recordFailure e n tc topen b"
| "exec (GetStats n) b = snd (getStats n b)"
| "exec Reset b = reset b"

fun run :: "call list \<Rightarrow> CircuitBreaker \<Rightarrow> CircuitBreaker" where
  "run [] b = b"
| "run (c # cs) b = run cs (exec c b)"

text \<open>The states the breaker passes through during a list of calls, one after each call.\<close>

fun states_after :: "call list \<Rightarrow> CircuitBreaker \<Rightarrow> CircuitBreakerState list" where
  "states_after [] b = []"
| "states_after (c # cs) b = state (exec c b) # states_after cs (exec c b)"

text \<open>
  The record that a counted \<^verbatim>\<open>recordFailure\<close> call pushes (used for such calls only).
\<close>

definition stamp :: "call \<Rightarrow> FailureRecord" where
  "stamp c = \<lparr> timestamp = c_now c, error = message (c_err c) \<rparr>"

text \<open>
  The invariant behind the success counter: outside \<^verbatim>\<open>HALF_OPEN\<close> it is zero.
\<close>

definition successes_inv :: "CircuitBreaker \<Rightarrow> bool" where
  "successes_inv b = (state b \<noteq> HALF_OPEN \<longrightarrow> successes b = 0)"

subsection \<open>Example scenarios\<close>

text \<open>
  Two errors, one that the PreKey filter counts and one that it ignores, and two states of
  the factory's breaker: \<open>tripped_at t\<close> after five counted failures at the instant \<open>t\<close>,
  and \<open>probing_at t\<close> after a \<^verbatim>\<open>canExecute()\<close> that comes 30000 ms later.
\<close>

definition preKeyError :: js_error where
  "preKeyError = \<lparr> message = ''Invalid PreKey ID'' \<rparr>"

definition otherError :: js_error where
  "otherError = \<lparr> message = ''Connection Closed'' \<rparr>"

definition tripped_at :: "int \<Rightarrow> CircuitBreaker" where
  "tripped_at t = run (replicate 5 (RecordFailure preKeyError t t t)) createPreKeyCircuitBreaker"

definition probing_at :: "int \<Rightarrow> CircuitBreaker" where
  "probing_at t = exec (CanExecute (t + 30000) (t + 30000)) (tripped_at t)"

text \<open>
  Counted failures ten seconds apart, each call with three distinct clock reads;
  calls made while the breaker that tripped at 0 is still blocking; and a closed breaker
  that holds one record from the instant 0 and one from 50000.
\<close>

definition four_failures :: "call list" where
  "four_failures =
     [RecordFailure preKeyError 0 1 2, RecordFailure preKeyError 10000 10001 10002,
      RecordFailure preKeyError 20000 20001 20002, RecordFailure preKeyError 30000 30001 30002]"

definition five_failures :: "call list" where
  "five_failures = four_failures @ [RecordFailure preKeyError 40000 40001 40002]"

definition blocked_calls :: "call list" where
  "blocked_calls = [CanExecute 10000 10000, RecordFailure preKeyError 15000 15000 15000,
                    RecordSuccess 16000, CanExecute 19000 19000]"

definition two_ages :: CircuitBreaker where
  "two_ages = run [RecordFailure preKeyError 0 0 0, RecordFailure preKeyError 50000 50000 50000]
                createPreKeyCircuitBreaker"

section \<open>Properties\<close>

subsection \<open>What the private methods leave alone\<close>

lemma transitionTo_CLOSED_clock: "transitionTo CLOSED t b = transitionTo CLOSED t' b"
  by simp

lemma config_cleanOldFailures: "config (cleanOldFailures t b) = config b"
  by (simp add: cleanOldFailures_def)

lemma state_cleanOldFailures: "state (cleanOldFailures t b) = state b"
  by (simp add: cleanOldFailures_def)

lemma openedAt_cleanOldFailures: "openedAt (cleanOldFailures t b) = openedAt b"
  by (simp add: cleanOldFailures_def)

lemma successes_cleanOldFailures: "successes (cleanOldFailures t b) = successes b"
  by (simp add: cleanOldFailures_def)

lemma failures_cleanOldFailures:
  "failures (cleanOldFailures t b) =
     filter (\<lambda>f. timestamp f > t - failureWindow (config b)) (failures b)"
  by (simp add: cleanOldFailures_def)

lemma config_transitionTo: "config (transitionTo s t b) = config b"
  by (cases s) simp_all

lemma state_transitionTo: "state (transitionTo s t b) = s"
  by (cases s) simp_all

lemma successes_transitionTo: "successes (transitionTo s t b) = 0"
  by (cases s) simp_all

lemma config_exec: "config (exec c b) = config b"
  by (cases c)
    (simp_all add: canExecute_def recordSuccess_def recordFailure_def getStats_def reset_def
      Let_def config_cleanOldFailures config_transitionTo split: CircuitBreakerState.split)

lemma config_run: "config (run cs b) = config b"
  by (induction cs arbitrary: b) (simp_all add: config_exec)

lemma run_append: "run (cs @ ds) b = run ds (run cs b)"
  by (induction cs arbitrary: b) simp_all

subsection \<open>The example scenarios, evaluated\<close>

lemma preKeyError_counts: "shouldCountError (config createPreKeyCircuitBreaker) preKeyError"
  by code_simp

lemma otherError_filtered: "\<not> shouldCountError (config createPreKeyCircuitBreaker) otherError"
  by code_simp

lemma config_tripped_at: "config (tripped_at t) = config createPreKeyCircuitBreaker"
  by (simp add: tripped_at_def config_run)

lemma config_probing_at: "config (probing_at t) = config createPreKeyCircuitBreaker"
  by (simp only: probing_at_def config_exec config_tripped_at)

lemma numbers_createPreKeyCircuitBreaker:
  "failureThreshold (config createPreKeyCircuitBreaker) = 5"
  "failureWindow (config createPreKeyCircuitBreaker) = 60000"
  "openTimeout (config createPreKeyCircuitBreaker) = 30000"
  "successThreshold (config createPreKeyCircuitBreaker) = 2"
  by (simp_all add: createPreKeyCircuitBreaker_def new_CircuitBreaker_def)

lemma tripped_at_0:
  "state (tripped_at 0) = OPEN" "openedAt (tripped_at 0) = 0" "successes (tripped_at 0) = 0"
  by code_simp+

lemma tripped_at_1000:
  "state (tripped_at 1000) = OPEN" "openedAt (tripped_at 1000) = 1000"
  by code_simp+

lemma probing_at_1000:
  "state (probing_at 1000) = HALF_OPEN" "openedAt (probing_at 1000) = 1000"
  "successes (probing_at 1000) = 0"
  by code_simp+

lemma reopened_1000:
  "state (exec (RecordFailure preKeyError 31500 31501 31502) (probing_at 1000)) = OPEN"
  by code_simp

subsection \<open>The open instant\<close>

lemma openedAt_exec:
  "openedAt (exec c b) =
     (if state b \<noteq> OPEN \<and> state (exec c b) = OPEN then c_open c
      else if is_Reset c \<or> (state b \<noteq> CLOSED \<and> state (exec c b) = CLOSED) then 0
      else openedAt b)"
proof (cases c)
  case (CanExecute tc tk)
  then show ?thesis
    by (cases "state b")
      (simp_all add: canExecute_def Let_def state_cleanOldFailures openedAt_cleanOldFailures)
next
  case (RecordSuccess tc)
  then show ?thesis
    by (cases "state b")
      (simp_all add: recordSuccess_def Let_def state_cleanOldFailures openedAt_cleanOldFailures)
next
  case (RecordFailure e n tc topen)
  then show ?thesis
    by (cases "state b")
      (simp_all add: recordFailure_def Let_def state_cleanOldFailures openedAt_cleanOldFailures)
next
  case (GetStats n)
  then show ?thesis by (simp add: getStats_def)
next
  case Reset
  then show ?thesis by (simp add: reset_def)
qed

text \<open>
  Claim C1, as the code has it. \<^verbatim>\<open>openedAt\<close> is written by two of the three entry
  actions: entering \<^verbatim>\<open>OPEN\<close> stores the clock read of \<^verbatim>\<open>transitionTo\<close>, entering
  \<^verbatim>\<open>CLOSED\<close> stores 0, entering \<^verbatim>\<open>HALF_OPEN\<close> leaves the field alone, and so does
  \<^verbatim>\<open>cleanOldFailures\<close>. For a call \<open>c\<close> of a public method: if the call takes the
  breaker from another state into \<^verbatim>\<open>OPEN\<close>, the field becomes that call's clock read
  \<open>c_open c\<close>; if the call is \<^verbatim>\<open>reset()\<close> or takes the breaker from another state into
  \<^verbatim>\<open>CLOSED\<close>, the field becomes 0; in every other case the field keeps its value.
\<close>

theorem openedAt_written_on_entry:
  "openedAt (transitionTo OPEN now b) = now \<and>
   openedAt (transitionTo HALF_OPEN now b) = openedAt b \<and>
   openedAt (transitionTo CLOSED now b) = 0 \<and>
   openedAt (cleanOldFailures now b) = openedAt b \<and>
   openedAt (exec c b) =
     (if state b \<noteq> OPEN \<and> state (exec c b) = OPEN then c_open c
      else if is_Reset c \<or> (state b \<noteq> CLOSED \<and> state (exec c b) = CLOSED) then 0
      else openedAt b)"
  using openedAt_exec [of c b] by (simp add: openedAt_cleanOldFailures)

text \<open>
  An instance: a counted failure during the probe reopens the breaker and stores the clock
  read 31502; the \<^verbatim>\<open>canExecute()\<close> that moves the tripped breaker into \<^verbatim>\<open>HALF_OPEN\<close>
  keeps the open instant.
\<close>

theorem openedAt_written_on_entry_witness:
  "state (probing_at 1000) \<noteq> OPEN \<and>
   state (exec (RecordFailure preKeyError 31500 31501 31502) (probing_at 1000)) = OPEN \<and>
   openedAt (exec (RecordFailure preKeyError 31500 31501 31502) (probing_at 1000)) = 31502 \<and>
   state (exec (CanExecute 31000 31000) (tripped_at 1000)) = HALF_OPEN \<and>
   openedAt (exec (CanExecute 31000 31000) (tripped_at 1000)) = openedAt (tripped_at 1000)"
  using openedAt_written_on_entry
      [of 0 "probing_at 1000" "RecordFailure preKeyError 31500 31501 31502"]
    openedAt_written_on_entry [of 0 "tripped_at 1000" "CanExecute 31000 31000"]
    probing_at_1000(1) reopened_1000 tripped_at_1000(1)
    probing_at_1000(1) [unfolded probing_at_def]
  by simp

text \<open>
  Claim C1 as the specification words it (the field is left untouched by every transition
  other than the one into \<^verbatim>\<open>OPEN\<close>) fails: the breaker that tripped at 1000 and has one
  probe success still has \<^verbatim>\<open>openedAt = 1000\<close>; the second \<^verbatim>\<open>recordSuccess()\<close> closes it
  and the field is no longer 1000.
\<close>

theorem openedAt_untouched_counterexample:
  "state (recordSuccess 31001 (probing_at 1000)) = HALF_OPEN \<and>
   openedAt (recordSuccess 31001 (probing_at 1000)) = 1000 \<and>
   state (recordSuccess 31002 (recordSuccess 31001 (probing_at 1000))) = CLOSED \<and>
   openedAt (recordSuccess 31002 (recordSuccess 31001 (probing_at 1000))) \<noteq> 1000"
  by code_simp

subsection \<open>Timeout recovery\<close>

text \<open>
  Claim C4. In \<^verbatim>\<open>OPEN\<close>, \<^verbatim>\<open>canExecute()\<close> returns false and leaves the state
  \<^verbatim>\<open>OPEN\<close> while the time elapsed since \<^verbatim>\<open>openedAt\<close> is below \<^verbatim>\<open>openTimeout\<close>; once
  the elapsed time is at least \<^verbatim>\<open>openTimeout\<close> it returns true and the state is
  \<^verbatim>\<open>HALF_OPEN\<close>. The elapsed time is taken at the clock read \<open>t_check\<close> of the test,
  whatever the read \<open>t_clean\<close> of the pruning pass was.
\<close>

theorem timeout_recovery:
  "state b = OPEN \<longrightarrow>
     (t_check - openedAt b < openTimeout (config b) \<longrightarrow>
        \<not> fst (canExecute t_clean t_check b) \<and>
        state (snd (canExecute t_clean t_check b)) = OPEN) \<and>
     (t_check - openedAt b \<ge> openTimeout (config b) \<longrightarrow>
        fst (canExecute t_clean t_check b) \<and>
        state (snd (canExecute t_clean t_check b)) = HALF_OPEN)"
  by (simp add: canExecute_def Let_def state_cleanOldFailures openedAt_cleanOldFailures
      config_cleanOldFailures)

text \<open>
  The numbers of the claim: the factory's breaker (\<^verbatim>\<open>openTimeout\<close> = 30000) that opened at
  0 refuses at 29999 and lets the probe through at 30000.
\<close>

theorem timeout_recovery_witness:
  "state (tripped_at 0) = OPEN \<and> openedAt (tripped_at 0) = 0 \<and>
   openTimeout (config (tripped_at 0)) = 30000 \<and>
   \<not> fst (canExecute 29999 29999 (tripped_at 0)) \<and>
   state (snd (canExecute 29999 29999 (tripped_at 0))) = OPEN \<and>
   fst (canExecute 30000 30000 (tripped_at 0)) \<and>
   state (snd (canExecute 30000 30000 (tripped_at 0))) = HALF_OPEN"
  using timeout_recovery [of "tripped_at 0" 29999 29999]
    timeout_recovery [of "tripped_at 0" 30000 30000] tripped_at_0(1,2)
  by (simp add: config_tripped_at numbers_createPreKeyCircuitBreaker)

subsection \<open>A failure during the probe\<close>

text \<open>
  Claim C5. In \<^verbatim>\<open>HALF_OPEN\<close>, one \<^verbatim>\<open>recordFailure(error)\<close> with an error that the filter
  counts appends the record (stamped with the first clock read, carrying the error's message),
  sets the state to \<^verbatim>\<open>OPEN\<close> and \<^verbatim>\<open>openedAt\<close> to the clock read of the transition, and
  zeroes \<^verbatim>\<open>successes\<close>, whatever the success counter was; nothing else changes.
\<close>

theorem probe_failure_reopens:
  "state b = HALF_OPEN \<and> shouldCountError (config b) e \<longrightarrow>
     recordFailure e now t_clean t_open b =
       b\<lparr> state := OPEN,
          failures := failures b @ [\<lparr> timestamp = now, error = message e \<rparr>],
          successes := 0,
          openedAt := t_open \<rparr>"
  by (simp add: recordFailure_def)

theorem probe_failure_reopens_witness:
  "state (probing_at 1000) = HALF_OPEN \<and>
   shouldCountError (config (probing_at 1000)) preKeyError \<and>
   state (recordFailure preKeyError 31500 31501 31502 (probing_at 1000)) = OPEN \<and>
   openedAt (recordFailure preKeyError 31500 31501 31502 (probing_at 1000)) = 31502 \<and>
   failures (recordFailure preKeyError 31500 31501 31502 (probing_at 1000)) =
     failures (probing_at 1000) @ [\<lparr> timestamp = 31500, error = ''Invalid PreKey ID'' \<rparr>]"
  using probe_failure_reopens [of "probing_at 1000" preKeyError 31500 31501 31502]
    preKeyError_counts probing_at_1000(1)
  by (simp add: config_probing_at preKeyError_def)

subsection \<open>Filtered errors\<close>

text \<open>
  Claim C7. For an error that \<^verbatim>\<open>shouldCountError\<close> rejects, \<^verbatim>\<open>recordFailure(error)\<close>
  returns the object as it was, in every state: no record is appended, and state, success
  counter and open instant keep their values.
\<close>

theorem filter_exclusion:
  "\<not> shouldCountError (config b) e \<longrightarrow> recordFailure e now t_clean t_open b = b"
  by (simp add: recordFailure_def)

theorem filter_exclusion_witness:
  "\<not> shouldCountError (config (probing_at 1000)) otherError \<and>
   recordFailure otherError 31500 31500 31500 (probing_at 1000) = probing_at 1000"
  using filter_exclusion [of "probing_at 1000" otherError 31500 31500 31500] otherError_filtered
  by (simp add: config_probing_at)

subsection \<open>Reset\<close>

text \<open>
  Claim C8. \<^verbatim>\<open>reset()\<close> from any state gives the state \<^verbatim>\<open>CLOSED\<close>, no failure records,
  \<^verbatim>\<open>successes = 0\<close> and \<^verbatim>\<open>openedAt = 0\<close> (the configuration is kept), and a second
  \<^verbatim>\<open>reset()\<close> changes nothing more.
\<close>

theorem reset_idempotent:
  "reset b = b\<lparr> state := CLOSED, failures := [], successes := 0, openedAt := 0 \<rparr> \<and>
   reset (reset b) = reset b"
  by (simp add: reset_def)

theorem reset_idempotent_witness:
  "state (reset (tripped_at 1000)) = CLOSED \<and> failures (reset (tripped_at 1000)) = [] \<and>
   successes (reset (tripped_at 1000)) = 0 \<and> openedAt (reset (tripped_at 1000)) = 0 \<and>
   reset (reset (tripped_at 1000)) = reset (tripped_at 1000)"
  using reset_idempotent [of "tripped_at 1000"] by (simp add: reset_def)

subsection \<open>Probe successes\<close>

text \<open>
  Claim C6. In \<^verbatim>\<open>HALF_OPEN\<close>, \<^verbatim>\<open>recordSuccess()\<close> adds one to \<^verbatim>\<open>successes\<close> and
  changes nothing else while the new count is below \<^verbatim>\<open>successThreshold\<close>; the call whose
  new count reaches \<^verbatim>\<open>successThreshold\<close> gives the state \<^verbatim>\<open>CLOSED\<close> with no failure
  records (and zeroed \<^verbatim>\<open>successes\<close> and \<^verbatim>\<open>openedAt\<close>). With \<^verbatim>\<open>successThreshold = 2\<close>
  and no success yet, the first call keeps \<^verbatim>\<open>HALF_OPEN\<close> and the second closes with an
  empty failure sequence.
\<close>

theorem probe_success_closes:
  "state b = HALF_OPEN \<longrightarrow>
     (successes b + 1 < successThreshold (config b) \<longrightarrow>
        recordSuccess t b = b\<lparr> successes := successes b + 1 \<rparr>) \<and>
     (successes b + 1 \<ge> successThreshold (config b) \<longrightarrow>
        recordSuccess t b = b\<lparr> state := CLOSED, failures := [], successes := 0, openedAt := 0 \<rparr>) \<and>
     (successes b = 0 \<and> successThreshold (config b) = 2 \<longrightarrow>
        state (recordSuccess t b) = HALF_OPEN \<and>
        state (recordSuccess t' (recordSuccess t b)) = CLOSED \<and>
        failures (recordSuccess t' (recordSuccess t b)) = [])"
  by (simp add: recordSuccess_def Let_def)

theorem probe_success_closes_witness:
  "state (probing_at 1000) = HALF_OPEN \<and> successes (probing_at 1000) = 0 \<and>
   successThreshold (config (probing_at 1000)) = 2 \<and>
   failures (probing_at 1000) \<noteq> [] \<and>
   recordSuccess 31001 (probing_at 1000) = (probing_at 1000)\<lparr> successes := 1 \<rparr> \<and>
   state (recordSuccess 31001 (probing_at 1000)) = HALF_OPEN \<and>
   state (recordSuccess 31002 (recordSuccess 31001 (probing_at 1000))) = CLOSED \<and>
   failures (recordSuccess 31002 (recordSuccess 31001 (probing_at 1000))) = []"
proof -
  have ne: "failures (probing_at 1000) \<noteq> []" by code_simp
  show ?thesis
    using probe_success_closes [of "probing_at 1000" 31001 31002] probing_at_1000(1,3) ne
    by (auto simp add: config_probing_at numbers_createPreKeyCircuitBreaker)
qed

subsection \<open>The success counter outside the probe\<close>

lemma successes_exec:
  "successes (exec c b) = successes b \<or> successes (exec c b) = 0 \<or>
   (is_RecordSuccess c \<and> state b = HALF_OPEN \<and> state (exec c b) = HALF_OPEN \<and>
    successes (exec c b) = successes b + 1)"
proof (cases c)
  case (CanExecute tc tk)
  then show ?thesis
    by (cases "state b")
      (simp_all add: canExecute_def Let_def state_cleanOldFailures successes_cleanOldFailures)
next
  case (RecordSuccess tc)
  then show ?thesis
    by (cases "state b")
      (simp_all add: recordSuccess_def Let_def successes_cleanOldFailures)
next
  case (RecordFailure e n tc topen)
  then show ?thesis
    by (cases "state b")
      (simp_all add: recordFailure_def Let_def state_cleanOldFailures successes_cleanOldFailures)
next
  case (GetStats n)
  then show ?thesis by (simp add: getStats_def)
next
  case Reset
  then show ?thesis by (simp add: reset_def)
qed

lemma successes_inv_exec:
  assumes "successes_inv b"
  shows "successes_inv (exec c b)"
proof (cases c)
  case (CanExecute tc tk)
  with assms show ?thesis
    by (cases "state b")
      (simp_all add: successes_inv_def canExecute_def Let_def state_cleanOldFailures
        successes_cleanOldFailures)
next
  case (RecordSuccess tc)
  with assms show ?thesis
    by (cases "state b")
      (simp_all add: successes_inv_def recordSuccess_def Let_def state_cleanOldFailures
        successes_cleanOldFailures)
next
  case (RecordFailure e n tc topen)
  with assms show ?thesis
    by (cases "state b")
      (simp_all add: successes_inv_def recordFailure_def Let_def state_cleanOldFailures
        successes_cleanOldFailures)
next
  case (GetStats n)
  with assms show ?thesis by (simp add: getStats_def successes_inv_def)
next
  case Reset
  then show ?thesis by (simp add: reset_def successes_inv_def)
qed

lemma successes_inv_run: "successes_inv b \<Longrightarrow> successes_inv (run cs b)"
  by (induction cs arbitrary: b) (simp_all add: successes_inv_exec)

lemma successes_inv_new: "successes_inv (new_CircuitBreaker fT fW oT sT filt)"
  by (simp add: successes_inv_def new_CircuitBreaker_def)

text \<open>
  Claim C10. After any list of calls on a newly constructed breaker, \<^verbatim>\<open>successes\<close> is 0
  unless the state is \<^verbatim>\<open>HALF_OPEN\<close>. Every \<^verbatim>\<open>transitionTo\<close> zeroes the counter, and a
  call of a public method either keeps the counter, or zeroes it, or is a
  \<^verbatim>\<open>recordSuccess()\<close> that starts and ends in \<^verbatim>\<open>HALF_OPEN\<close> and adds one.
\<close>

theorem successes_zero_outside_HALF_OPEN:
  "(state (run cs (new_CircuitBreaker fT fW oT sT filt)) \<noteq> HALF_OPEN \<longrightarrow>
      successes (run cs (new_CircuitBreaker fT fW oT sT filt)) = 0) \<and>
   successes (transitionTo s now b) = 0 \<and>
   (successes (exec c b) = successes b \<or> successes (exec c b) = 0 \<or>
    (is_RecordSuccess c \<and> state b = HALF_OPEN \<and> state (exec c b) = HALF_OPEN \<and>
     successes (exec c b) = successes b + 1))"
proof -
  have "successes_inv (run cs (new_CircuitBreaker fT fW oT sT filt))"
    by (rule successes_inv_run) (rule successes_inv_new)
  then have "state (run cs (new_CircuitBreaker fT fW oT sT filt)) \<noteq> HALF_OPEN \<longrightarrow>
      successes (run cs (new_CircuitBreaker fT fW oT sT filt)) = 0"
    by (simp add: successes_inv_def)
  then show ?thesis
    using successes_exec [of c b] by (simp add: successes_transitionTo)
qed

lemma reopened_after_success:
  "state (run (replicate 5 (RecordFailure preKeyError 0 0 0) @
               [CanExecute 30000 30000, RecordSuccess 30001,
                RecordFailure preKeyError 30002 30002 30002])
            (new_CircuitBreaker 5 60000 30000 2 (Some preKeyFilter))) = OPEN"
  "successes (run (replicate 5 (RecordFailure preKeyError 0 0 0) @
               [CanExecute 30000 30000, RecordSuccess 30001])
            (new_CircuitBreaker 5 60000 30000 2 (Some preKeyFilter))) = 1"
  by code_simp+

text \<open>
  An instance: the factory's breaker trips, starts probing, counts one success, and a counted
  failure reopens it; the counter, 1 before that failure, is 0 in \<^verbatim>\<open>OPEN\<close>.
\<close>

theorem successes_zero_outside_HALF_OPEN_witness:
  "state (run (replicate 5 (RecordFailure preKeyError 0 0 0) @
               [CanExecute 30000 30000, RecordSuccess 30001,
                RecordFailure preKeyError 30002 30002 30002])
            (new_CircuitBreaker 5 60000 30000 2 (Some preKeyFilter))) \<noteq> HALF_OPEN \<and>
   successes (run (replicate 5 (RecordFailure preKeyError 0 0 0) @
               [CanExecute 30000 30000, RecordSuccess 30001])
            (new_CircuitBreaker 5 60000 30000 2 (Some preKeyFilter))) = 1 \<and>
   successes (run (replicate 5 (RecordFailure preKeyError 0 0 0) @
               [CanExecute 30000 30000, RecordSuccess 30001,
                RecordFailure preKeyError 30002 30002 30002])
            (new_CircuitBreaker 5 60000 30000 2 (Some preKeyFilter))) = 0"
  using successes_zero_outside_HALF_OPEN
      [of "replicate 5 (RecordFailure preKeyError 0 0 0) @
             [CanExecute 30000 30000, RecordSuccess 30001,
              RecordFailure preKeyError 30002 30002 30002]"
          5 60000 30000 2 "Some preKeyFilter"]
    reopened_after_success
  by simp

subsection \<open>The sliding window\<close>

lemma pruned_cleanOldFailures:
  "\<forall>f\<in>set (failures (cleanOldFailures now b)). timestamp f > now - failureWindow (config b)"
  by (simp add: failures_cleanOldFailures)

lemma failures_canExecute:
  "failures (snd (canExecute t_clean t_check b)) = failures (cleanOldFailures t_clean b)"
  by (cases "state b") (simp_all add: canExecute_def Let_def state_cleanOldFailures)

lemma failures_recordFailure_CLOSED:
  "state b = CLOSED \<Longrightarrow> shouldCountError (config b) e \<Longrightarrow>
   failures (recordFailure e now t_clean t_open b) =
     failures (cleanOldFailures t_clean
       (b\<lparr> failures := failures b @ [\<lparr> timestamp = now, error = message e \<rparr>] \<rparr>))"
  by (simp add: recordFailure_def Let_def state_cleanOldFailures)

text \<open>
  Claim C3. After \<^verbatim>\<open>cleanOldFailures\<close> at the clock read \<open>now\<close>, every record kept has
  \<^verbatim>\<open>timestamp > now - failureWindow\<close>, so a record with \<^verbatim>\<open>now - timestamp >= failureWindow\<close>
  is gone. The same bound holds, for the clock read \<open>t_clean\<close> of the pruning pass, after
  \<^verbatim>\<open>canExecute()\<close> in any state, after \<^verbatim>\<open>recordSuccess()\<close> in \<^verbatim>\<open>CLOSED\<close> and after a
  counted \<^verbatim>\<open>recordFailure\<close> in \<^verbatim>\<open>CLOSED\<close>. With \<^verbatim>\<open>failureThreshold = 5\<close> and
  \<^verbatim>\<open>failureWindow = 60000\<close>, four counted failures at 0 and one at 61000 on a new breaker
  leave it \<^verbatim>\<open>CLOSED\<close>, holding the record of 61000 only.
\<close>

theorem window_expiry:
  "(\<forall>f\<in>set (failures (cleanOldFailures now b)). timestamp f > now - failureWindow (config b)) \<and>
   (\<forall>f\<in>set (failures b). now - timestamp f \<ge> failureWindow (config b) \<longrightarrow>
        f \<notin> set (failures (cleanOldFailures now b))) \<and>
   (\<forall>f\<in>set (failures (snd (canExecute t_clean t_check b))).
        timestamp f > t_clean - failureWindow (config b)) \<and>
   (state b = CLOSED \<longrightarrow>
      (\<forall>f\<in>set (failures (recordSuccess t_clean b)).
        timestamp f > t_clean - failureWindow (config b))) \<and>
   (state b = CLOSED \<and> shouldCountError (config b) e \<longrightarrow>
      (\<forall>f\<in>set (failures (recordFailure e now t_clean t_open b)).
        timestamp f > t_clean - failureWindow (config b))) \<and>
   (shouldCountError (config (new_CircuitBreaker 5 60000 oT sT filt)) e \<longrightarrow>
      state (run [RecordFailure e 0 0 0, RecordFailure e 0 0 0, RecordFailure e 0 0 0,
                  RecordFailure e 0 0 0, RecordFailure e 61000 61000 61000]
               (new_CircuitBreaker 5 60000 oT sT filt)) = CLOSED \<and>
      failures (run [RecordFailure e 0 0 0, RecordFailure e 0 0 0, RecordFailure e 0 0 0,
                  RecordFailure e 0 0 0, RecordFailure e 61000 61000 61000]
               (new_CircuitBreaker 5 60000 oT sT filt)) =
        [\<lparr> timestamp = 61000, error = message e \<rparr>])"
proof -
  have a: "\<forall>f\<in>set (failures (cleanOldFailures now b)).
             timestamp f > now - failureWindow (config b)"
    by (rule pruned_cleanOldFailures)
  have b: "\<forall>f\<in>set (failures b). now - timestamp f \<ge> failureWindow (config b) \<longrightarrow>
        f \<notin> set (failures (cleanOldFailures now b))"
    by (auto simp add: failures_cleanOldFailures)
  have c: "\<forall>f\<in>set (failures (snd (canExecute t_clean t_check b))).
        timestamp f > t_clean - failureWindow (config b)"
    using pruned_cleanOldFailures [of t_clean b] by (simp only: failures_canExecute)
  have d: "state b = CLOSED \<longrightarrow>
      (\<forall>f\<in>set (failures (recordSuccess t_clean b)).
        timestamp f > t_clean - failureWindow (config b))"
    by (simp add: recordSuccess_def failures_cleanOldFailures)
  have e: "state b = CLOSED \<and> shouldCountError (config b) e \<longrightarrow>
      (\<forall>f\<in>set (failures (recordFailure e now t_clean t_open b)).
        timestamp f > t_clean - failureWindow (config b))"
    by (auto simp add: failures_recordFailure_CLOSED failures_cleanOldFailures)
  have f: "shouldCountError (config (new_CircuitBreaker 5 60000 oT sT filt)) e \<longrightarrow>
      state (run [RecordFailure e 0 0 0, RecordFailure e 0 0 0, RecordFailure e 0 0 0,
                  RecordFailure e 0 0 0, RecordFailure e 61000 61000 61000]
               (new_CircuitBreaker 5 60000 oT sT filt)) = CLOSED \<and>
      failures (run [RecordFailure e 0 0 0, RecordFailure e 0 0 0, RecordFailure e 0 0 0,
                  RecordFailure e 0 0 0, RecordFailure e 61000 61000 61000]
               (new_CircuitBreaker 5 60000 oT sT filt)) =
        [\<lparr> timestamp = 61000, error = message e \<rparr>]"
    by (simp add: new_CircuitBreaker_def recordFailure_def cleanOldFailures_def Let_def)
  from a b c d e f show ?thesis by (intro conjI)
qed

lemma two_ages_pruned:
  "failures (cleanOldFailures 61000 two_ages) = [\<lparr> timestamp = 50000, error = ''Invalid PreKey ID'' \<rparr>]"
  by code_simp

theorem window_expiry_witness:
  "failures (cleanOldFailures 61000 two_ages) =
     [\<lparr> timestamp = 50000, error = ''Invalid PreKey ID'' \<rparr>] \<and>
   (50000 :: int) > 61000 - failureWindow (config two_ages) \<and>
   shouldCountError (config createPreKeyCircuitBreaker) preKeyError \<and>
   state (run [RecordFailure preKeyError 0 0 0, RecordFailure preKeyError 0 0 0,
               RecordFailure preKeyError 0 0 0, RecordFailure preKeyError 0 0 0,
               RecordFailure preKeyError 61000 61000 61000] createPreKeyCircuitBreaker) = CLOSED"
proof -
  note w = window_expiry [of 61000 two_ages 0 0 preKeyError 0 "30 * 1000" 2 "Some preKeyFilter"]
  from w [THEN conjunct1] two_ages_pruned
  have kept: "(50000 :: int) > 61000 - failureWindow (config two_ages)" by simp
  have counted: "shouldCountError (config (new_CircuitBreaker 5 60000 (30 * 1000) 2
                    (Some preKeyFilter))) preKeyError"
    using preKeyError_counts by (simp add: createPreKeyCircuitBreaker_def)
  note example = w [THEN conjunct2, THEN conjunct2, THEN conjunct2, THEN conjunct2,
      THEN conjunct2, THEN mp, OF counted, THEN conjunct1]
  from kept example two_ages_pruned preKeyError_counts show ?thesis
    by (simp add: createPreKeyCircuitBreaker_def)
qed

subsection \<open>The failure threshold\<close>

lemma recordFailure_CLOSED:
  assumes "state b = CLOSED" and "shouldCountError (config b) e"
    and "filter (\<lambda>f. timestamp f > tc - failureWindow (config b))
           (failures b @ [\<lparr> timestamp = n, error = message e \<rparr>]) = fs"
  shows "recordFailure e n tc topen b =
     (if int (length fs) \<ge> failureThreshold (config b)
      then b\<lparr> failures := fs, state := OPEN, openedAt := topen, successes := 0 \<rparr>
      else b\<lparr> failures := fs \<rparr>)"
  using assms by (auto simp add: recordFailure_def cleanOldFailures_def Let_def)

lemma run_failures_below:
  assumes "state b = CLOSED"
    and "\<forall>c\<in>set cs. is_RecordFailure c \<and> shouldCountError (config b) (c_err c)"
    and "int (length (failures b)) + int (length cs) < failureThreshold (config b)"
  shows "state (run cs b) = CLOSED"
  using assms
proof (induction cs arbitrary: b)
  case Nil
  then show ?case by simp
next
  case (Cons c cs)
  from Cons.prems(2) obtain e n tc topen where c: "c = RecordFailure e n tc topen"
    by (cases c) auto
  from Cons.prems(2) c have q: "shouldCountError (config b) e" by simp
  let ?fs = "filter (\<lambda>f. timestamp f > tc - failureWindow (config b))
                 (failures b @ [\<lparr> timestamp = n, error = message e \<rparr>])"
  have len: "length ?fs \<le> length (failures b) + 1"
    using length_filter_le [of _ "failures b @ [\<lparr> timestamp = n, error = message e \<rparr>]"]
    by (metis length_append_singleton Suc_eq_plus1)
  with Cons.prems(3) have below: "\<not> int (length ?fs) \<ge> failureThreshold (config b)"
    by simp
  have step: "exec c b = b\<lparr> failures := ?fs \<rparr>"
  proof -
    have "recordFailure e n tc topen b =
       (if int (length ?fs) \<ge> failureThreshold (config b)
        then b\<lparr> failures := ?fs, state := OPEN, openedAt := topen, successes := 0 \<rparr>
        else b\<lparr> failures := ?fs \<rparr>)"
      by (rule recordFailure_CLOSED [OF Cons.prems(1) q refl])
    with below show ?thesis unfolding c by (simp only: exec.simps if_False)
  qed
  have "state (run cs (exec c b)) = CLOSED"
  proof (rule Cons.IH)
    show "state (exec c b) = CLOSED" using step Cons.prems(1) by simp
    show "\<forall>c'\<in>set cs. is_RecordFailure c' \<and> shouldCountError (config (exec c b)) (c_err c')"
      using Cons.prems(2) by (simp add: config_exec)
    show "int (length (failures (exec c b))) + int (length cs)
            < failureThreshold (config (exec c b))"
      using step len Cons.prems(3) by (simp add: config_exec del: exec.simps)
  qed
  then show ?case by simp
qed

lemma window_keeps:
  assumes "\<forall>j<length (cs @ [c]). \<forall>i\<le>j.
             c_clean ((cs @ [c]) ! j) - c_now ((cs @ [c]) ! i) < w"
  shows "filter (\<lambda>f. timestamp f > c_clean c - w) (map stamp (cs @ [c])) = map stamp (cs @ [c])"
proof -
  have "\<forall>f\<in>set (map stamp (cs @ [c])). timestamp f > c_clean c - w"
  proof
    fix f assume "f \<in> set (map stamp (cs @ [c]))"
    then obtain x where x: "x \<in> set (cs @ [c])" "f = stamp x"
      by (auto simp del: map_append)
    from x(1) obtain i where "i < length (cs @ [c])" "x = (cs @ [c]) ! i"
      by (metis in_set_conv_nth)
    with x(2) have i: "i < length (cs @ [c])" "f = stamp ((cs @ [c]) ! i)"
      by simp_all
    from assms [rule_format, of "length cs" i] i(1)
    have "c_clean c - c_now ((cs @ [c]) ! i) < w" by simp
    then show "timestamp f > c_clean c - w" using i(2) by (simp add: stamp_def)
  qed
  then show ?thesis by (simp only: filter_True)
qed

lemma window_prefix:
  assumes "\<forall>j<length (cs @ [c]). \<forall>i\<le>j.
             c_clean ((cs @ [c]) ! j) - c_now ((cs @ [c]) ! i) < w"
  shows "\<forall>j<length cs. \<forall>i\<le>j. c_clean (cs ! j) - c_now (cs ! i) < w"
proof (intro allI impI)
  fix j i assume "j < length cs" "i \<le> j"
  then show "c_clean (cs ! j) - c_now (cs ! i) < w"
    using assms [rule_format, of j i] by (simp add: nth_append)
qed

lemma recordFailure_tracked:
  assumes "state b = CLOSED" and "failures b = map stamp cs"
    and "shouldCountError (config b) e"
    and "\<forall>j<length (cs @ [RecordFailure e n tc topen]). \<forall>i\<le>j.
           c_clean ((cs @ [RecordFailure e n tc topen]) ! j)
             - c_now ((cs @ [RecordFailure e n tc topen]) ! i) < failureWindow (config b)"
  shows "recordFailure e n tc topen b =
     (if int (length cs) + 1 \<ge> failureThreshold (config b)
      then b\<lparr> failures := map stamp (cs @ [RecordFailure e n tc topen]), state := OPEN,
               openedAt := topen, successes := 0 \<rparr>
      else b\<lparr> failures := map stamp (cs @ [RecordFailure e n tc topen]) \<rparr>)"
proof -
  let ?c = "RecordFailure e n tc topen"
  have sc: "[\<lparr> timestamp = n, error = message e \<rparr>] = map stamp [?c]"
    by (simp add: stamp_def)
  have "filter (\<lambda>f. timestamp f > c_clean ?c - failureWindow (config b)) (map stamp (cs @ [?c]))
          = map stamp (cs @ [?c])"
    by (rule window_keeps [OF assms(4)])
  then have fs: "filter (\<lambda>f. timestamp f > tc - failureWindow (config b))
                   (failures b @ [\<lparr> timestamp = n, error = message e \<rparr>])
                 = map stamp (cs @ [?c])"
    by (simp only: assms(2) sc map_append call.sel)
  have len: "int (length (map stamp (cs @ [?c]))) = int (length cs) + 1" by simp
  show ?thesis
    using recordFailure_CLOSED [OF assms(1) assms(3) fs, of topen] by (simp only: len)
qed

lemma run_failures_tracked:
  assumes "state b = CLOSED" and "failures b = []"
    and "\<forall>c\<in>set cs. is_RecordFailure c \<and> shouldCountError (config b) (c_err c)"
    and "\<forall>j<length cs. \<forall>i\<le>j. c_clean (cs ! j) - c_now (cs ! i) < failureWindow (config b)"
    and "int (length cs) < failureThreshold (config b)"
  shows "run cs b = b\<lparr> failures := map stamp cs \<rparr>"
  using assms(3-5)
proof (induction cs rule: rev_induct)
  case Nil
  then show ?case using assms(2) by simp
next
  case (snoc c cs)
  from snoc.prems(1) obtain e n tc topen where c: "c = RecordFailure e n tc topen"
    by (cases c) auto
  from snoc.prems(1) c have q: "shouldCountError (config b) e" by simp
  have IH: "run cs b = b\<lparr> failures := map stamp cs \<rparr>"
    using snoc.IH snoc.prems(1,3) window_prefix [OF snoc.prems(2)] by simp
  let ?b = "b\<lparr> failures := map stamp cs \<rparr>"
  have "run (cs @ [c]) b = recordFailure e n tc topen ?b"
    using c by (simp add: run_append IH)
  also have "\<dots> = ?b\<lparr> failures := map stamp (cs @ [c]) \<rparr>"
    using recordFailure_tracked [of ?b cs e n tc topen] assms(1) q snoc.prems(2,3) c
    by simp
  finally show ?case by simp
qed

lemma run_failures_open:
  assumes "state b = CLOSED" and "failures b = []"
    and "\<forall>c\<in>set cs. is_RecordFailure c \<and> shouldCountError (config b) (c_err c)"
    and "\<forall>j<length cs. \<forall>i\<le>j. c_clean (cs ! j) - c_now (cs ! i) < failureWindow (config b)"
    and "cs \<noteq> []" and "int (length cs) = failureThreshold (config b)"
  shows "run cs b = b\<lparr> failures := map stamp cs, state := OPEN, openedAt := c_open (last cs),
                        successes := 0 \<rparr>"
proof -
  from assms(5) obtain ds c where cs: "cs = ds @ [c]" by (cases cs rule: rev_cases) auto
  from assms(3) cs obtain e n tc topen where c: "c = RecordFailure e n tc topen"
    by (cases c) auto
  from assms(3) cs c have q: "shouldCountError (config b) e" by simp
  have pre: "run ds b = b\<lparr> failures := map stamp ds \<rparr>"
  proof (rule run_failures_tracked [OF assms(1,2)])
    show "\<forall>c\<in>set ds. is_RecordFailure c \<and> shouldCountError (config b) (c_err c)"
      using assms(3) cs by simp
    show "\<forall>j<length ds. \<forall>i\<le>j. c_clean (ds ! j) - c_now (ds ! i) < failureWindow (config b)"
      using window_prefix assms(4) cs by blast
    show "int (length ds) < failureThreshold (config b)" using assms(6) cs by simp
  qed
  let ?b = "b\<lparr> failures := map stamp ds \<rparr>"
  have "run cs b = recordFailure e n tc topen ?b"
    using c cs by (simp add: run_append pre)
  also have "\<dots> = ?b\<lparr> failures := map stamp cs, state := OPEN, openedAt := topen,
                        successes := 0 \<rparr>"
    using recordFailure_tracked [of ?b ds e n tc topen] assms(1,4,6) q c cs
    by simp
  finally show ?thesis using cs c by simp
qed

lemma canExecute_waits:
  assumes "state b = OPEN"
    and "\<forall>q\<in>set qs. is_CanExecute q \<and> c_check q - openedAt b < openTimeout (config b)"
  shows "state (run qs b) = OPEN \<and> openedAt (run qs b) = openedAt b"
  using assms
proof (induction qs arbitrary: b)
  case Nil
  then show ?case by simp
next
  case (Cons q qs)
  from Cons.prems(2) obtain tc tk where q: "q = CanExecute tc tk" by (cases q) auto
  from Cons.prems q have early: "tk - openedAt b < openTimeout (config b)" by simp
  have step: "exec q b = cleanOldFailures tc b"
    using Cons.prems(1) early q
    by (simp add: canExecute_def Let_def state_cleanOldFailures openedAt_cleanOldFailures
        config_cleanOldFailures)
  have "state (run qs (exec q b)) = OPEN \<and> openedAt (run qs (exec q b)) = openedAt (exec q b)"
  proof (rule Cons.IH)
    show "state (exec q b) = OPEN"
      using Cons.prems(1) by (simp only: step state_cleanOldFailures)
    show "\<forall>q'\<in>set qs. is_CanExecute q' \<and>
            c_check q' - openedAt (exec q b) < openTimeout (config (exec q b))"
      using Cons.prems(2)
      by (simp add: step openedAt_cleanOldFailures config_cleanOldFailures)
  qed
  then show ?case by (simp add: step openedAt_cleanOldFailures)
qed

text \<open>
  Claim C2. In \<^verbatim>\<open>CLOSED\<close>, \<^verbatim>\<open>canExecute()\<close> returns true and keeps the state. A counted
  \<^verbatim>\<open>recordFailure\<close> in \<^verbatim>\<open>CLOSED\<close> opens the breaker exactly when the records inside the
  window, the new one included, number at least \<^verbatim>\<open>failureThreshold\<close>. For a list \<open>cs\<close> of
  counted \<^verbatim>\<open>recordFailure\<close> calls on a closed breaker without failure records: while the
  list is shorter than \<^verbatim>\<open>failureThreshold\<close> the state stays \<^verbatim>\<open>CLOSED\<close> and
  \<^verbatim>\<open>canExecute()\<close> returns true; when the list has \<^verbatim>\<open>failureThreshold\<close> calls and, at
  the pruning pass of each call, the stamps recorded so far are less than \<^verbatim>\<open>failureWindow\<close>
  old, the last call opens the breaker with \<^verbatim>\<open>openedAt\<close> its clock read \<open>c_open\<close>. From
  then on, after any number of \<^verbatim>\<open>canExecute()\<close> calls made before \<^verbatim>\<open>openTimeout\<close> has
  elapsed, \<^verbatim>\<open>canExecute()\<close> returns false and the state stays \<^verbatim>\<open>OPEN\<close> as long as the
  elapsed time is below \<^verbatim>\<open>openTimeout\<close>, and returns true, with the state
  \<^verbatim>\<open>HALF_OPEN\<close>, once it is not.
\<close>

theorem threshold_property:
  "(state b = CLOSED \<longrightarrow>
      fst (canExecute t_clean t_check b) \<and> state (snd (canExecute t_clean t_check b)) = CLOSED) \<and>
   (state b = CLOSED \<and> shouldCountError (config b) e \<longrightarrow>
      state (recordFailure e now t_clean t_open b) =
        (if failureThreshold (config b)
              \<le> int (length (filter (\<lambda>f. timestamp f > t_clean - failureWindow (config b))
                                (failures b @ [\<lparr> timestamp = now, error = message e \<rparr>])))
         then OPEN else CLOSED)) \<and>
   (state b = CLOSED \<and> failures b = [] \<and>
    (\<forall>c\<in>set cs. is_RecordFailure c \<and> shouldCountError (config b) (c_err c)) \<longrightarrow>
     (int (length cs) < failureThreshold (config b) \<longrightarrow>
        state (run cs b) = CLOSED \<and>
        fst (canExecute t_clean t_check (run cs b)) \<and>
        state (snd (canExecute t_clean t_check (run cs b))) = CLOSED) \<and>
     (cs \<noteq> [] \<and> int (length cs) = failureThreshold (config b) \<and>
      (\<forall>j<length cs. \<forall>i\<le>j. c_clean (cs ! j) - c_now (cs ! i) < failureWindow (config b)) \<longrightarrow>
        state (run cs b) = OPEN \<and> openedAt (run cs b) = c_open (last cs) \<and>
        (\<forall>qs. (\<forall>q\<in>set qs. is_CanExecute q \<and>
                    c_check q - c_open (last cs) < openTimeout (config b)) \<longrightarrow>
           (t_check - c_open (last cs) < openTimeout (config b) \<longrightarrow>
              \<not> fst (canExecute t_clean t_check (run qs (run cs b))) \<and>
              state (snd (canExecute t_clean t_check (run qs (run cs b)))) = OPEN) \<and>
           (t_check - c_open (last cs) \<ge> openTimeout (config b) \<longrightarrow>
              fst (canExecute t_clean t_check (run qs (run cs b))) \<and>
              state (snd (canExecute t_clean t_check (run qs (run cs b)))) = HALF_OPEN))))"
  (is "?passes \<and> ?trigger \<and> (?start \<longrightarrow> (?few \<longrightarrow> ?stays) \<and> (?full \<longrightarrow> ?trips))")
proof -
  have passes: ?passes
    by (simp add: canExecute_def Let_def state_cleanOldFailures)
  have trigger: ?trigger
  proof
    assume "state b = CLOSED \<and> shouldCountError (config b) e"
    then have closed: "state b = CLOSED" and q: "shouldCountError (config b) e" by simp_all
    show "state (recordFailure e now t_clean t_open b) =
        (if failureThreshold (config b)
              \<le> int (length (filter (\<lambda>f. timestamp f > t_clean - failureWindow (config b))
                                (failures b @ [\<lparr> timestamp = now, error = message e \<rparr>])))
         then OPEN else CLOSED)"
      using closed by (simp only: recordFailure_CLOSED [OF closed q refl]) simp
  qed
  have sequences: "?start \<longrightarrow> (?few \<longrightarrow> ?stays) \<and> (?full \<longrightarrow> ?trips)"
  proof (intro impI, elim conjE)
    assume closed: "state b = CLOSED" and empty: "failures b = []"
      and qual: "\<forall>c\<in>set cs. is_RecordFailure c \<and> shouldCountError (config b) (c_err c)"
    have below: ?stays if few: ?few
    proof -
      have "state (run cs b) = CLOSED"
        using run_failures_below [OF closed qual] few empty by simp
      then show ?thesis
        by (simp add: canExecute_def Let_def state_cleanOldFailures)
    qed
    have reach: ?trips if full: ?full
    proof -
      from full have ne: "cs \<noteq> []" and len: "int (length cs) = failureThreshold (config b)"
        and win: "\<forall>j<length cs. \<forall>i\<le>j.
                    c_clean (cs ! j) - c_now (cs ! i) < failureWindow (config b)"
        by simp_all
      have opened: "run cs b = b\<lparr> failures := map stamp cs, state := OPEN,
                                   openedAt := c_open (last cs), successes := 0 \<rparr>"
        by (rule run_failures_open [OF closed empty qual win ne len])
      then have st: "state (run cs b) = OPEN" and oa: "openedAt (run cs b) = c_open (last cs)"
        by simp_all
      have later: "(t_check - c_open (last cs) < openTimeout (config b) \<longrightarrow>
                \<not> fst (canExecute t_clean t_check (run qs (run cs b))) \<and>
                state (snd (canExecute t_clean t_check (run qs (run cs b)))) = OPEN) \<and>
             (t_check - c_open (last cs) \<ge> openTimeout (config b) \<longrightarrow>
                fst (canExecute t_clean t_check (run qs (run cs b))) \<and>
                state (snd (canExecute t_clean t_check (run qs (run cs b)))) = HALF_OPEN)"
        if wait: "\<forall>q\<in>set qs. is_CanExecute q \<and>
                      c_check q - c_open (last cs) < openTimeout (config b)" for qs
      proof -
        have "state (run qs (run cs b)) = OPEN \<and>
              openedAt (run qs (run cs b)) = openedAt (run cs b)"
          using canExecute_waits [OF st, of qs] wait by (simp add: oa config_run)
        then show ?thesis
          by (simp add: canExecute_def Let_def state_cleanOldFailures openedAt_cleanOldFailures
              config_cleanOldFailures config_run oa)
      qed
      from st oa later show ?thesis by blast
    qed
    from below reach show "(?few \<longrightarrow> ?stays) \<and> (?full \<longrightarrow> ?trips)" by blast
  qed
  from passes trigger sequences show ?thesis by (intro conjI)
qed

lemma fresh_createPreKeyCircuitBreaker:
  "state createPreKeyCircuitBreaker = CLOSED" "failures createPreKeyCircuitBreaker = []"
  by (simp_all add: createPreKeyCircuitBreaker_def new_CircuitBreaker_def)

lemma four_failures_count:
  "\<forall>c\<in>set four_failures.
     is_RecordFailure c \<and> shouldCountError (config createPreKeyCircuitBreaker) (c_err c)"
  by (simp add: four_failures_def preKeyError_counts)

lemma five_failures_count:
  "\<forall>c\<in>set five_failures.
     is_RecordFailure c \<and> shouldCountError (config createPreKeyCircuitBreaker) (c_err c)"
  by (simp add: five_failures_def four_failures_def preKeyError_counts)

lemma five_failures_window:
  "\<forall>j<length five_failures. \<forall>i\<le>j.
     c_clean (five_failures ! j) - c_now (five_failures ! i)
       < failureWindow (config createPreKeyCircuitBreaker)"
proof -
  have "\<forall>x\<in>set five_failures. \<forall>y\<in>set five_failures. c_clean x - c_now y < 60000"
    by (simp add: five_failures_def four_failures_def)
  then show ?thesis
    by (simp add: numbers_createPreKeyCircuitBreaker)
qed

text \<open>
  An instance on the factory's breaker (threshold 5, window 60000, timeout 30000): four
  counted failures ten seconds apart leave it closed, the fifth opens it at 40002, and
  \<^verbatim>\<open>canExecute()\<close> refuses at 70001 and lets the probe through at 70002.
\<close>

theorem threshold_property_witness:
  "state createPreKeyCircuitBreaker = CLOSED \<and> failures createPreKeyCircuitBreaker = [] \<and>
   int (length four_failures) = failureThreshold (config createPreKeyCircuitBreaker) - 1 \<and>
   state (run four_failures createPreKeyCircuitBreaker) = CLOSED \<and>
   fst (canExecute 30003 30003 (run four_failures createPreKeyCircuitBreaker)) \<and>
   int (length five_failures) = failureThreshold (config createPreKeyCircuitBreaker) \<and>
   state (run five_failures createPreKeyCircuitBreaker) = OPEN \<and>
   openedAt (run five_failures createPreKeyCircuitBreaker) = 40002 \<and>
   \<not> fst (canExecute 70001 70001
            (run [CanExecute 50000 50000, CanExecute 60000 60000]
               (run five_failures createPreKeyCircuitBreaker))) \<and>
   fst (canExecute 70002 70002
            (run [CanExecute 50000 50000, CanExecute 60000 60000]
               (run five_failures createPreKeyCircuitBreaker)))"
proof -
  have n4: "int (length four_failures) = 4" and n5: "int (length five_failures) = 5"
    and ne: "five_failures \<noteq> []" and l5: "c_open (last five_failures) = 40002"
    by (simp_all add: five_failures_def four_failures_def)
  have wait: "\<forall>q\<in>set [CanExecute 50000 50000, CanExecute 60000 60000].
          is_CanExecute q \<and> c_check q - c_open (last five_failures)
            < openTimeout (config createPreKeyCircuitBreaker)"
    by (simp add: l5 numbers_createPreKeyCircuitBreaker)
  have pre4: "state createPreKeyCircuitBreaker = CLOSED \<and>
      failures createPreKeyCircuitBreaker = [] \<and>
      (\<forall>c\<in>set four_failures. is_RecordFailure c \<and>
          shouldCountError (config createPreKeyCircuitBreaker) (c_err c))"
    using fresh_createPreKeyCircuitBreaker four_failures_count by simp
  have pre5: "state createPreKeyCircuitBreaker = CLOSED \<and>
      failures createPreKeyCircuitBreaker = [] \<and>
      (\<forall>c\<in>set five_failures. is_RecordFailure c \<and>
          shouldCountError (config createPreKeyCircuitBreaker) (c_err c))"
    using fresh_createPreKeyCircuitBreaker five_failures_count by simp
  have few: "int (length four_failures) < failureThreshold (config createPreKeyCircuitBreaker)"
    by (simp add: n4 numbers_createPreKeyCircuitBreaker)
  have full: "five_failures \<noteq> [] \<and>
      int (length five_failures) = failureThreshold (config createPreKeyCircuitBreaker) \<and>
      (\<forall>j<length five_failures. \<forall>i\<le>j.
          c_clean (five_failures ! j) - c_now (five_failures ! i)
            < failureWindow (config createPreKeyCircuitBreaker))"
    using ne n5 five_failures_window by (simp add: numbers_createPreKeyCircuitBreaker)
  note below = threshold_property
      [of createPreKeyCircuitBreaker 30003 30003 preKeyError 0 0 four_failures,
       THEN conjunct2, THEN conjunct2, THEN mp, OF pre4, THEN conjunct1, THEN mp, OF few]
  note reach1 = threshold_property
      [of createPreKeyCircuitBreaker 70001 70001 preKeyError 0 0 five_failures,
       THEN conjunct2, THEN conjunct2, THEN mp, OF pre5, THEN conjunct2, THEN mp, OF full]
  note reach2 = threshold_property
      [of createPreKeyCircuitBreaker 70002 70002 preKeyError 0 0 five_failures,
       THEN conjunct2, THEN conjunct2, THEN mp, OF pre5, THEN conjunct2, THEN mp, OF full]
  note late1 = reach1 [THEN conjunct2, THEN conjunct2, THEN spec, THEN mp, OF wait]
  note late2 = reach2 [THEN conjunct2, THEN conjunct2, THEN spec, THEN mp, OF wait]
  from below reach1 late1 late2 show ?thesis
    by (simp add: fresh_createPreKeyCircuitBreaker n4 n5 l5 numbers_createPreKeyCircuitBreaker)
qed

subsection \<open>Statistics\<close>

lemma stays_OPEN:
  assumes "state b = OPEN" and "\<forall>s\<in>set (states_after cs b). s = OPEN"
  shows "state (run cs b) = OPEN \<and> openedAt (run cs b) = openedAt b"
  using assms
proof (induction cs arbitrary: b)
  case Nil
  then show ?case by simp
next
  case (Cons c cs)
  from Cons.prems(2) have st: "state (exec c b) = OPEN" by simp
  with Cons.prems(1) have oa: "openedAt (exec c b) = openedAt b"
    using openedAt_exec [of c b] by (cases c) (simp_all add: reset_def)
  from Cons.prems(2) have rest: "\<forall>s\<in>set (states_after cs (exec c b)). s = OPEN" by simp
  from Cons.IH [OF st rest] oa show ?case by simp
qed

text \<open>
  Claim C9. \<^verbatim>\<open>getStats()\<close> returns the object unchanged. Its \<^verbatim>\<open>timeUntilHalfOpen\<close> is
  \<^verbatim>\<open>max(0, openTimeout - (now - openedAt))\<close> in \<^verbatim>\<open>OPEN\<close> and 0 in \<^verbatim>\<open>CLOSED\<close> and
  \<^verbatim>\<open>HALF_OPEN\<close>. Along any list of calls \<open>cs\<close> after each of which the state is
  \<^verbatim>\<open>OPEN\<close>, a later clock read gives a value that is not larger, and a strictly smaller one
  when the clock has advanced and the earlier value was positive.
\<close>

theorem stats_consistency:
  "snd (getStats now b) = b \<and>
   (state b = OPEN \<longrightarrow>
      timeUntilHalfOpen (fst (getStats now b)) =
        max 0 (openTimeout (config b) - (now - openedAt b))) \<and>
   (state b = CLOSED \<or> state b = HALF_OPEN \<longrightarrow> timeUntilHalfOpen (fst (getStats now b)) = 0) \<and>
   (state b = OPEN \<and> (\<forall>s\<in>set (states_after cs b). s = OPEN) \<and> now \<le> now' \<longrightarrow>
      timeUntilHalfOpen (fst (getStats now' (run cs b)))
        \<le> timeUntilHalfOpen (fst (getStats now b))) \<and>
   (state b = OPEN \<and> (\<forall>s\<in>set (states_after cs b). s = OPEN) \<and> now < now' \<and>
    0 < timeUntilHalfOpen (fst (getStats now b)) \<longrightarrow>
      timeUntilHalfOpen (fst (getStats now' (run cs b)))
        < timeUntilHalfOpen (fst (getStats now b)))"
proof -
  have frame: "snd (getStats now b) = b" by (simp add: getStats_def)
  have open_value: "state b = OPEN \<longrightarrow>
      timeUntilHalfOpen (fst (getStats now b)) =
        max 0 (openTimeout (config b) - (now - openedAt b))"
    by (simp add: getStats_def)
  have zero: "state b = CLOSED \<or> state b = HALF_OPEN \<longrightarrow>
      timeUntilHalfOpen (fst (getStats now b)) = 0"
    by (auto simp add: getStats_def)
  have later: "timeUntilHalfOpen (fst (getStats now' (run cs b))) =
        max 0 (openTimeout (config b) - (now' - openedAt b))"
    if "state b = OPEN" and "\<forall>s\<in>set (states_after cs b). s = OPEN"
    using stays_OPEN [OF that] by (simp add: getStats_def config_run)
  have mono: "state b = OPEN \<and> (\<forall>s\<in>set (states_after cs b). s = OPEN) \<and> now \<le> now' \<longrightarrow>
      timeUntilHalfOpen (fst (getStats now' (run cs b)))
        \<le> timeUntilHalfOpen (fst (getStats now b))"
    using later open_value by auto
  have strict: "state b = OPEN \<and> (\<forall>s\<in>set (states_after cs b). s = OPEN) \<and> now < now' \<and>
    0 < timeUntilHalfOpen (fst (getStats now b)) \<longrightarrow>
      timeUntilHalfOpen (fst (getStats now' (run cs b)))
        < timeUntilHalfOpen (fst (getStats now b))"
    using later open_value by auto
  from frame open_value zero mono strict show ?thesis by (intro conjI)
qed

lemma blocked_calls_stay_OPEN:
  "states_after blocked_calls (tripped_at 0) = [OPEN, OPEN, OPEN, OPEN]"
  by code_simp

theorem stats_consistency_witness:
  "snd (getStats 5000 (tripped_at 0)) = tripped_at 0 \<and>
   state (tripped_at 0) = OPEN \<and>
   states_after blocked_calls (tripped_at 0) = [OPEN, OPEN, OPEN, OPEN] \<and>
   timeUntilHalfOpen (fst (getStats 5000 (tripped_at 0))) = 25000 \<and>
   timeUntilHalfOpen (fst (getStats 20000 (run blocked_calls (tripped_at 0))))
     < timeUntilHalfOpen (fst (getStats 5000 (tripped_at 0))) \<and>
   state (probing_at 1000) = HALF_OPEN \<and>
   timeUntilHalfOpen (fst (getStats 31001 (probing_at 1000))) = 0"
proof -
  note s = stats_consistency [of 5000 "tripped_at 0" blocked_calls 20000]
  note z = stats_consistency [of 31001 "probing_at 1000" "[]" 31001]
  have stay: "\<forall>s\<in>set (states_after blocked_calls (tripped_at 0)). s = OPEN"
    by (simp add: blocked_calls_stay_OPEN)
  from s [THEN conjunct2, THEN conjunct1, THEN mp, OF tripped_at_0(1)]
  have v: "timeUntilHalfOpen (fst (getStats 5000 (tripped_at 0))) = 25000"
    by (simp add: tripped_at_0 config_tripped_at numbers_createPreKeyCircuitBreaker)
  have hyp: "state (tripped_at 0) = OPEN \<and>
      (\<forall>s\<in>set (states_after blocked_calls (tripped_at 0)). s = OPEN) \<and> (5000 :: int) < 20000 \<and>
      0 < timeUntilHalfOpen (fst (getStats 5000 (tripped_at 0)))"
    using tripped_at_0(1) stay v by simp
  note d = s [THEN conjunct2, THEN conjunct2, THEN conjunct2, THEN conjunct2, THEN mp, OF hyp]
  have "state (probing_at 1000) = CLOSED \<or> state (probing_at 1000) = HALF_OPEN"
    by (simp add: probing_at_1000)
  note zero = z [THEN conjunct2, THEN conjunct2, THEN conjunct1, THEN mp, OF this]
  from s [THEN conjunct1] v d zero show ?thesis
    by (simp add: tripped_at_0 probing_at_1000 blocked_calls_stay_OPEN)
qed

end
